theory Spec2Isabelle
  imports Complex_Main
begin

section \<open>The platform: automation timelines of audio parameters\<close>

text \<open>
  GenSynthNote.js drives two audio parameters, \<open>this.adsr.gain\<close> and
  \<open>this.lpFilter.frequency\<close>, through three methods of the Web Audio interface:
  \<open>cancelScheduledValues\<close>, \<open>setValueAtTime\<close> and \<open>linearRampToValueAtTime\<close>, and reads
  the attribute \<open>value\<close>. A parameter is modelled by the value its attribute \<open>value\<close>
  reads (\<open>current\<close>, the last value the audio thread has computed) and its list of
  scheduled events, kept in time order; an event added at a time where events already
  exist goes after them. Numbers are real numbers: rounding of the doubles of the source
  is not modelled.
\<close>

datatype event =
    SetValue real real      \<comment> \<open>target value, time\<close>
  | LinearRamp real real    \<comment> \<open>target value, end time\<close>

fun ev_value :: "event \<Rightarrow> real" where
  "ev_value (SetValue v t) = v"
| "ev_value (LinearRamp v t) = v"

fun ev_time :: "event \<Rightarrow> real" where
  "ev_time (SetValue v t) = t"
| "ev_time (LinearRamp v t) = t"

record AudioParam =
  current :: real
  events :: "event list"

fun insert_event :: "event \<Rightarrow> event list \<Rightarrow> event list" where
  "insert_event e [] = [e]"
| "insert_event e (x # xs) =
     (if ev_time x \<le> ev_time e then x # insert_event e xs else e # x # xs)"

definition cancelScheduledValues :: "real \<Rightarrow> AudioParam \<Rightarrow> AudioParam" where
  "cancelScheduledValues t p = p\<lparr>events := filter (\<lambda>e. ev_time e < t) (events p)\<rparr>"

definition setValueAtTime :: "real \<Rightarrow> real \<Rightarrow> AudioParam \<Rightarrow> AudioParam" where
  "setValueAtTime v t p = p\<lparr>events := insert_event (SetValue v t) (events p)\<rparr>"

definition linearRampToValueAtTime :: "real \<Rightarrow> real \<Rightarrow> AudioParam \<Rightarrow> AudioParam" where
  "linearRampToValueAtTime v t p = p\<lparr>events := insert_event (LinearRamp v t) (events p)\<rparr>"

text \<open>
  The value a timeline gives at time \<open>t\<close>. The events are walked in order, carrying the
  value and the time of the event before. Before an event's time the value is held (before
  a \<open>SetValue\<close>) or interpolated linearly from the event before (before the end of a
  \<open>LinearRamp\<close>); from the time of the last event on, its target value is held. Of several
  events at one time the last one decides the value at that time. A ramp with no event
  before it holds the initial value until its end time; \<open>start\<close> and \<open>stop\<close> below always
  pin an event at the call instant first.
\<close>

fun eval_events :: "real \<Rightarrow> real option \<Rightarrow> event list \<Rightarrow> real \<Rightarrow> real" where
  "eval_events v0 t0 [] t = v0"
| "eval_events v0 t0 (SetValue v1 t1 # es) t =
     (if t < t1 then v0 else eval_events v1 (Some t1) es t)"
| "eval_events v0 t0 (LinearRamp v1 t1 # es) t =
     (if t < t1
      then (case t0 of
              None \<Rightarrow> v0
            | Some T0 \<Rightarrow> v0 + (v1 - v0) * ((t - T0) / (t1 - T0)))
      else eval_events v1 (Some t1) es t)"

definition value_at :: "AudioParam \<Rightarrow> real \<Rightarrow> real" where
  "value_at p t = eval_events (current p) None (events p) t"

text \<open>
  The audio thread computing the parameter at time \<open>t\<close>: from then on the attribute
  \<open>value\<close> reads the timeline's value at \<open>t\<close>.
\<close>

definition render :: "real \<Rightarrow> AudioParam \<Rightarrow> AudioParam" where
  "render t p = p\<lparr>current := value_at p t\<rparr>"

section \<open>GenSynthNote.js\<close>

text \<open>
  The nodes of one voice. Of the oscillator the class uses the constructor and
  \<open>stop(when)\<close>, and nowhere \<open>start()\<close>. An oscillator is constructed not started, and
  only its \<open>start()\<close> makes it started. Its \<open>stop(when)\<close> raises \<open>InvalidStateError\<close> on an
  oscillator that is not started and schedules nothing; on a started one it schedules the
  stop at \<open>when\<close> (\<open>stop_at\<close>), a later call replacing an earlier one. \<open>stop_calls\<close> lists the
  \<open>when\<close> arguments of all calls of \<open>stop\<close>, in call order, raised or not.
\<close>

datatype error = InvalidStateError

record OscillatorNode =
  osc_frequency :: real
  osc_type :: string
  started :: bool
  stop_calls :: "real list"
  stop_at :: "real option"

definition oscillator_stop :: "real \<Rightarrow> OscillatorNode \<Rightarrow> error option \<times> OscillatorNode" where
  "oscillator_stop when_t o1 =
     (if started o1
      then (None, o1\<lparr>stop_calls := stop_calls o1 @ [when_t], stop_at := Some when_t\<rparr>)
      else (Some InvalidStateError, o1\<lparr>stop_calls := stop_calls o1 @ [when_t]\<rparr>))"

record GainNode =
  gain :: AudioParam

record BiquadFilterNode =
  filter_type :: string
  frequency :: AudioParam
  Q :: real

record voice =
  freq :: real
  attack :: real
  decay :: real
  sustain :: real
  release :: real
  maxGain :: real
  osc :: OscillatorNode
  adsr :: GainNode
  lpFilter :: BiquadFilterNode
  dest :: nat

text \<open>\<open>mtof(mn)\<close>: \<open>440 * 2 ** ((mn - 69) / 12)\<close>.\<close>

definition mtof :: "real \<Rightarrow> real" where
  "mtof mn = 440 * 2 powr ((mn - 69) / 12)"

text \<open>
  The constructor. The context is the clock that \<open>start\<close> and \<open>stop\<close> read; its reading
  is passed to them as \<open>now\<close>. \<open>d\<close> names the destination node the chain is connected to.
\<close>

definition new_GenSynthNote ::
  "nat \<Rightarrow> real \<Rightarrow> real \<Rightarrow> real \<Rightarrow> real \<Rightarrow> real \<Rightarrow> voice" where
  "new_GenSynthNote d midiNote att dec sus rel =
     (let f = mtof midiNote in
      \<lparr> freq = f,
        attack = att,
        decay = dec,
        sustain = sus,
        release = rel,
        maxGain = 0.25,
        osc = \<lparr> osc_frequency = f, osc_type = ''sawtooth'', started = False,
                stop_calls = [], stop_at = None \<rparr>,
        adsr = \<lparr> gain = \<lparr> current = 0.0, events = [] \<rparr> \<rparr>,
        lpFilter = \<lparr> filter_type = ''lowpass'',
                     frequency = \<lparr> current = f * 8, events = [] \<rparr>,
                     Q = 10 \<rparr>,
        dest = d \<rparr>)"

text \<open>
  \<open>resetEnvelopes(t)\<close>: on each parameter, cancel the events from \<open>t\<close> on, then set an
  event at \<open>t\<close> with the value the attribute \<open>value\<close> reads.
\<close>

definition anchor :: "real \<Rightarrow> AudioParam \<Rightarrow> AudioParam" where
  "anchor t p = (let p1 = cancelScheduledValues t p in setValueAtTime (current p1) t p1)"

definition resetEnvelopes :: "real \<Rightarrow> voice \<Rightarrow> voice" where
  "resetEnvelopes t v =
     (let v1 = v\<lparr>adsr := (adsr v)\<lparr>gain := anchor t (gain (adsr v))\<rparr>\<rparr>
      in v1\<lparr>lpFilter := (lpFilter v1)\<lparr>frequency := anchor t (frequency (lpFilter v1))\<rparr>\<rparr>)"

text \<open>\<open>start()\<close>, with \<open>now = this.ctx.currentTime\<close>.\<close>

definition start :: "real \<Rightarrow> voice \<Rightarrow> voice" where
  "start now v =
     (let v1 = resetEnvelopes now v;
          v2 = v1\<lparr>adsr := (adsr v1)\<lparr>gain :=
                 linearRampToValueAtTime (maxGain v1) (now + attack v1) (gain (adsr v1))\<rparr>\<rparr>;
          v3 = v2\<lparr>adsr := (adsr v2)\<lparr>gain :=
                 linearRampToValueAtTime (maxGain v2 * sustain v2)
                   (now + attack v2 + decay v2) (gain (adsr v2))\<rparr>\<rparr>
      in v3\<lparr>lpFilter := (lpFilter v3)\<lparr>frequency :=
              linearRampToValueAtTime (freq v3 * 2)
                (now + attack v3 + decay v3) (frequency (lpFilter v3))\<rparr>\<rparr>)"

text \<open>
  \<open>stop()\<close>, with \<open>now = this.ctx.currentTime\<close>. \<open>stop_run\<close> gives the error the call ends
  with, if any, and the voice the call leaves: what the statements before a raise have
  done stays done. \<open>stop\<close> is the voice the call leaves.
\<close>

definition stop_run :: "real \<Rightarrow> voice \<Rightarrow> error option \<times> voice" where
  "stop_run now v =
     (let v1 = resetEnvelopes now v;
          v2 = v1\<lparr>adsr := (adsr v1)\<lparr>gain :=
                 linearRampToValueAtTime 0.0 (now + release v1) (gain (adsr v1))\<rparr>\<rparr>;
          (e, o1) = oscillator_stop (now + release v2) (osc v2)
      in (e, v2\<lparr>osc := o1\<rparr>))"

definition stop :: "real \<Rightarrow> voice \<Rightarrow> voice" where
  "stop now v = snd (stop_run now v)"

text \<open>The events of a timeline from time \<open>t\<close> on.\<close>

definition events_from :: "real \<Rightarrow> AudioParam \<Rightarrow> event list" where
  "events_from t p = filter (\<lambda>e. t \<le> ev_time e) (events p)"

text \<open>The point of the straight line from \<open>(ta, va)\<close> to \<open>(tb, vb)\<close> at time \<open>t\<close>.\<close>

definition lerp :: "real \<Rightarrow> real \<Rightarrow> real \<Rightarrow> real \<Rightarrow> real \<Rightarrow> real" where
  "lerp ta va tb vb t = va + (vb - va) * ((t - ta) / (tb - ta))"

section \<open>The playback script\<close>

text \<open>
  The script's variables, the note objects it has created, and the platform's timers.
  The variables \<open>attack\<close>, \<open>decay\<close>, \<open>sustain\<close>, \<open>release\<close> of the script carry the suffix
  \<open>_var\<close> here, the fields of a voice keep the plain names. \<open>delay\<close> is the destination node
  that the script leaves to its TODO section; the model takes it as given. A timer is the
  periodic one of \<open>setInterval(playANote, loopTime)\<close> or the one-shot one of
  \<open>setTimeout(() => note.stop(), loopTime)\<close>, which holds the note it will stop (its index
  in \<open>note_objs\<close>); both carry their delay in milliseconds. Timer handles are positive and
  never reused.
\<close>

datatype timer =
    Interval real
  | Timeout nat real

fun is_Interval :: "timer \<Rightarrow> bool" where
  "is_Interval (Interval ms) = True"
| "is_Interval (Timeout k ms) = False"

record script =
  loopTime :: real
  attack_var :: real
  decay_var :: real
  sustain_var :: real
  release_var :: real
  ctx_running :: bool
  delay :: nat
  note_objs :: "voice list"
  timers :: "(nat \<times> timer) list"
  next_id :: nat
  looper :: "nat option"

definition init_script :: "nat \<Rightarrow> script" where
  "init_script d =
     \<lparr> loopTime = 125,
       attack_var = 0.01,
       decay_var = 0.1,
       sustain_var = 0.25,
       release_var = 0.9,
       ctx_running = False,
       delay = d,
       note_objs = [],
       timers = [],
       next_id = 1,
       looper = None \<rparr>"

definition midiNotes :: "int list" where
  "midiNotes = [36, 48, 55, 58, 60, 62, 63, 65, 67, 69, 70, 72, 75, 79, 82]"

text \<open>
  \<open>pool[Math.floor(r * pool.length)]\<close>, where \<open>r\<close> is the result of \<open>Math.random()\<close>.
  Reading outside the array gives \<open>undefined\<close>, here \<open>None\<close>.
\<close>

definition pick_index :: "'a list \<Rightarrow> real \<Rightarrow> int" where
  "pick_index pool r = \<lfloor>r * real (length pool)\<rfloor>"

definition pick :: "'a list \<Rightarrow> real \<Rightarrow> 'a option" where
  "pick pool r =
     (let k = pick_index pool r
      in if 0 \<le> k \<and> k < int (length pool) then Some (pool ! nat k) else None)"

definition setTimer :: "timer \<Rightarrow> script \<Rightarrow> nat \<times> script" where
  "setTimer tm st =
     (next_id st,
      st\<lparr>timers := timers st @ [(next_id st, tm)], next_id := Suc (next_id st)\<rparr>)"

text \<open>\<open>clearInterval(h)\<close>: \<open>null\<close> and handles of no timer are ignored.\<close>

definition clearInterval :: "nat option \<Rightarrow> script \<Rightarrow> script" where
  "clearInterval h st =
     (case h of
        None \<Rightarrow> st
      | Some i \<Rightarrow> st\<lparr>timers := filter (\<lambda>(j, tm). j \<noteq> i) (timers st)\<rparr>)"

text \<open>The test \<open>if (looper)\<close>: \<open>null\<close> and \<open>0\<close> are false.\<close>

definition truthy :: "nat option \<Rightarrow> bool" where
  "truthy h = (case h of None \<Rightarrow> False | Some i \<Rightarrow> i \<noteq> 0)"

text \<open>
  \<open>playANote\<close>, with \<open>r\<close> the random draw and \<open>now\<close> the clock reading during the call.
  An undefined pitch gives a frequency that is not a number, which the constructor of the
  oscillator refuses: the call ends there (\<open>None\<close>).
\<close>

definition playANote :: "real \<Rightarrow> real \<Rightarrow> script \<Rightarrow> script option" where
  "playANote r now st =
     (case pick midiNotes r of
        None \<Rightarrow> None
      | Some midiPitch \<Rightarrow>
          (let note = new_GenSynthNote (delay st) (of_int midiPitch)
                        (attack_var st) (decay_var st) (sustain_var st) (release_var st);
               note1 = start now note;
               st1 = st\<lparr>note_objs := note_objs st @ [note1]\<rparr>
           in Some (snd (setTimer (Timeout (length (note_objs st)) (loopTime st)) st1))))"

text \<open>The click handlers of \<open>#start\<close> and \<open>#stop\<close>.\<close>

definition begin_loop :: "script \<Rightarrow> script" where
  "begin_loop st =
     (let (i, st1) = setTimer (Interval (loopTime st)) st in st1\<lparr>looper := Some i\<rparr>)"

definition click_start :: "script \<Rightarrow> script" where
  "click_start st =
     (let st1 = st\<lparr>ctx_running := True\<rparr>;
          st2 = (if truthy (looper st1) then clearInterval (looper st1) st1 else st1)
      in begin_loop st2)"

definition click_stop :: "script \<Rightarrow> script" where
  "click_stop st = (clearInterval (looper st) st)\<lparr>looper := None\<rparr>"

text \<open>The input handlers of the four envelope sliders.\<close>

definition attTime_input :: "real \<Rightarrow> script \<Rightarrow> script" where
  "attTime_input x st = st\<lparr>attack_var := x\<rparr>"

definition decTime_input :: "real \<Rightarrow> script \<Rightarrow> script" where
  "decTime_input x st = st\<lparr>decay_var := x\<rparr>"

definition susAmp_input :: "real \<Rightarrow> script \<Rightarrow> script" where
  "susAmp_input x st = st\<lparr>sustain_var := x\<rparr>"

definition relTime_input :: "real \<Rightarrow> script \<Rightarrow> script" where
  "relTime_input x st = st\<lparr>release_var := x\<rparr>"

text \<open>
  The audio thread computes the parameters on its own schedule: \<open>audio_renders t\<close> is the
  thread computing every parameter of every voice at time \<open>t\<close>. What a callback then reads
  from an attribute \<open>value\<close> is the last value computed, which can be older than the clock
  reading of the callback.
\<close>

definition render_voice :: "real \<Rightarrow> voice \<Rightarrow> voice" where
  "render_voice t v =
     v\<lparr>adsr := (adsr v)\<lparr>gain := render t (gain (adsr v))\<rparr>,
       lpFilter := (lpFilter v)\<lparr>frequency := render t (frequency (lpFilter v))\<rparr>\<rparr>"

definition audio_renders :: "real \<Rightarrow> script \<Rightarrow> script" where
  "audio_renders t st = st\<lparr>note_objs := map (render_voice t) (note_objs st)\<rparr>"

text \<open>
  The platform running a timer. The periodic timer \<open>i\<close> calls \<open>playANote\<close>; a call that
  ends in an error before it has written anything leaves the script as it was. The
  one-shot timer \<open>i\<close> is spent and calls \<open>note.stop()\<close> on its note; an error that call ends
  with is reported by the platform and the script goes on with the voice the call left.
\<close>

definition interval_fires :: "nat \<Rightarrow> real \<Rightarrow> real \<Rightarrow> script \<Rightarrow> script" where
  "interval_fires i r now st =
     (case map_of (timers st) i of
        Some (Interval ms) \<Rightarrow> (case playANote r now st of None \<Rightarrow> st | Some st1 \<Rightarrow> st1)
      | _ \<Rightarrow> st)"

definition timeout_fires :: "nat \<Rightarrow> real \<Rightarrow> script \<Rightarrow> script" where
  "timeout_fires i now st =
     (case map_of (timers st) i of
        Some (Timeout k ms) \<Rightarrow>
          (let st1 = st\<lparr>timers := filter (\<lambda>(j, tm). j \<noteq> i) (timers st)\<rparr>
           in if k < length (note_objs st1)
              then st1\<lparr>note_objs := (note_objs st1)[k := stop now (note_objs st1 ! k)]\<rparr>
              else st1)
      | _ \<Rightarrow> st)"

text \<open>The states the script can be in: any run of the handlers from the initial state.\<close>

inductive reachable :: "script \<Rightarrow> bool" where
  r_init: "reachable (init_script d)"
| r_start: "reachable st \<Longrightarrow> reachable (click_start st)"
| r_stop: "reachable st \<Longrightarrow> reachable (click_stop st)"
| r_att: "reachable st \<Longrightarrow> reachable (attTime_input x st)"
| r_dec: "reachable st \<Longrightarrow> reachable (decTime_input x st)"
| r_sus: "reachable st \<Longrightarrow> reachable (susAmp_input x st)"
| r_rel: "reachable st \<Longrightarrow> reachable (relTime_input x st)"
| r_interval: "reachable st \<Longrightarrow> 0 \<le> r \<Longrightarrow> r < 1 \<Longrightarrow> reachable (interval_fires i r now st)"
| r_timeout: "reachable st \<Longrightarrow> reachable (timeout_fires i now st)"
| r_render: "reachable st \<Longrightarrow> reachable (audio_renders t st)"

text \<open>The handles of the periodic timers that are set.\<close>

definition active_intervals :: "script \<Rightarrow> nat list" where
  "active_intervals st = map fst (filter (\<lambda>(j, tm). is_Interval tm) (timers st))"

text \<open>The one-shot timers that are set.\<close>

definition pending_timeouts :: "script \<Rightarrow> (nat \<times> timer) list" where
  "pending_timeouts st = filter (\<lambda>(j, tm). \<not> is_Interval tm) (timers st)"

text \<open>
  What holds of the timers in every state the script reaches: the periodic timers set are
  exactly the one \<open>looper\<close> names, handles are distinct, positive and below the next one
  to be given out.
\<close>

definition timer_inv :: "script \<Rightarrow> bool" where
  "timer_inv st =
     (active_intervals st = (case looper st of None \<Rightarrow> [] | Some i \<Rightarrow> [i])
      \<and> distinct (map fst (timers st))
      \<and> list_all (\<lambda>(j, tm). 0 < j \<and> j < next_id st) (timers st)
      \<and> 0 < next_id st)"

section \<open>Timeline lemmas\<close>

lemma insert_event_append:
  "\<forall>x \<in> set xs. ev_time x \<le> ev_time e \<Longrightarrow> insert_event e xs = xs @ [e]"
  by (induction xs) auto

lemma eval_events_append:
  "\<forall>x \<in> set xs. ev_time x \<le> t \<Longrightarrow> xs \<noteq> [] \<Longrightarrow>
   eval_events v0 t0 (xs @ ys) t
     = eval_events (ev_value (last xs)) (Some (ev_time (last xs))) ys t"
proof (induction xs arbitrary: v0 t0)
  case Nil
  then show ?case by simp
next
  case (Cons x xs)
  show ?case
  proof (cases xs)
    case Nil
    with Cons.prems show ?thesis by (cases x) auto
  next
    case (Cons y ys')
    with Cons.prems Cons.IH show ?thesis by (cases x) auto
  qed
qed

lemma events_anchor:
  "events (anchor t p) = filter (\<lambda>e. ev_time e < t) (events p) @ [SetValue (current p) t]"
proof -
  have "\<forall>x \<in> set (filter (\<lambda>e. ev_time e < t) (events p)). ev_time x \<le> ev_time (SetValue (current p) t)"
    by auto
  then show ?thesis
    by (simp add: anchor_def cancelScheduledValues_def setValueAtTime_def Let_def
        insert_event_append)
qed

lemma current_anchor: "current (anchor t p) = current p"
  by (simp add: anchor_def cancelScheduledValues_def setValueAtTime_def Let_def)

lemma events_ramp_anchor:
  assumes "t \<le> t1"
  shows "events (linearRampToValueAtTime v1 t1 (anchor t p))
           = filter (\<lambda>e. ev_time e < t) (events p) @ [SetValue (current p) t, LinearRamp v1 t1]"
proof -
  have "\<forall>x \<in> set (events (anchor t p)). ev_time x \<le> ev_time (LinearRamp v1 t1)"
    using assms by (auto simp: events_anchor)
  then show ?thesis
    by (simp add: linearRampToValueAtTime_def insert_event_append events_anchor)
qed

lemma events_ramp_ramp_anchor:
  assumes "t \<le> t1" and "t1 \<le> t2"
  shows "events (linearRampToValueAtTime v2 t2 (linearRampToValueAtTime v1 t1 (anchor t p)))
           = filter (\<lambda>e. ev_time e < t) (events p)
               @ [SetValue (current p) t, LinearRamp v1 t1, LinearRamp v2 t2]"
proof -
  have "\<forall>x \<in> set (events (linearRampToValueAtTime v1 t1 (anchor t p))).
          ev_time x \<le> ev_time (LinearRamp v2 t2)"
    using assms by (auto simp: events_ramp_anchor)
  then show ?thesis
    using assms by (simp add: linearRampToValueAtTime_def [of v2] insert_event_append events_ramp_anchor)
qed

lemma current_ramp: "current (linearRampToValueAtTime v t p) = current p"
  by (simp add: linearRampToValueAtTime_def)

text \<open>From the anchor instant on, the value is decided by the events from the anchor on.\<close>

lemma value_at_after_anchor:
  assumes "events q = filter (\<lambda>e. ev_time e < t) es @ SetValue c t # rest" and "t \<le> u"
  shows "value_at q u = eval_events c (Some t) rest u"
proof -
  let ?xs = "filter (\<lambda>e. ev_time e < t) es @ [SetValue c t]"
  have xs: "\<forall>x \<in> set ?xs. ev_time x \<le> u" using assms(2) by auto
  have "value_at q u = eval_events (current q) None (?xs @ rest) u"
    by (simp add: value_at_def assms(1))
  also have "\<dots> = eval_events (ev_value (last ?xs)) (Some (ev_time (last ?xs))) rest u"
    using xs by (intro eval_events_append) auto
  finally show ?thesis by simp
qed

lemma gain_start:
  "gain (adsr (start now v)) =
     linearRampToValueAtTime (maxGain v * sustain v) (now + attack v + decay v)
       (linearRampToValueAtTime (maxGain v) (now + attack v) (anchor now (gain (adsr v))))"
  by (simp add: start_def resetEnvelopes_def Let_def)

lemma frequency_start:
  "frequency (lpFilter (start now v)) =
     linearRampToValueAtTime (freq v * 2) (now + attack v + decay v)
       (anchor now (frequency (lpFilter v)))"
  by (simp add: start_def resetEnvelopes_def Let_def)

lemma stop_unfold:
  "stop now v =
     (resetEnvelopes now v)
       \<lparr>adsr := (adsr (resetEnvelopes now v))\<lparr>gain :=
          linearRampToValueAtTime 0 (now + release v) (gain (adsr (resetEnvelopes now v)))\<rparr>,
        osc := snd (oscillator_stop (now + release v) (osc v))\<rparr>"
  by (simp add: stop_def stop_run_def resetEnvelopes_def Let_def split: prod.splits)

lemma stop_run_error:
  "fst (stop_run now v) = (if started (osc v) then None else Some InvalidStateError)"
  by (simp add: stop_run_def resetEnvelopes_def oscillator_stop_def Let_def split: prod.splits)

lemma gain_stop:
  "gain (adsr (stop now v)) =
     linearRampToValueAtTime 0 (now + release v) (anchor now (gain (adsr v)))"
  by (simp add: stop_unfold resetEnvelopes_def Let_def)

lemma frequency_stop:
  "frequency (lpFilter (stop now v)) = anchor now (frequency (lpFilter v))"
  by (simp add: stop_unfold resetEnvelopes_def Let_def)

lemma stop_calls_stop:
  "stop_calls (osc (stop now v)) = stop_calls (osc v) @ [now + release v]"
  by (simp add: stop_unfold oscillator_stop_def)

lemma started_stop: "started (osc (stop now v)) = started (osc v)"
  by (simp add: stop_unfold oscillator_stop_def)

lemma stop_at_stop:
  "stop_at (osc (stop now v)) = (if started (osc v) then Some (now + release v) else stop_at (osc v))"
  by (simp add: stop_unfold oscillator_stop_def)



lemma fields_resetEnvelopes:
  "freq (resetEnvelopes t v) = freq v" "attack (resetEnvelopes t v) = attack v"
  "decay (resetEnvelopes t v) = decay v" "sustain (resetEnvelopes t v) = sustain v"
  "release (resetEnvelopes t v) = release v" "maxGain (resetEnvelopes t v) = maxGain v"
  "osc (resetEnvelopes t v) = osc v" "dest (resetEnvelopes t v) = dest v"
  by (simp_all add: resetEnvelopes_def Let_def)

lemma fields_start:
  "freq (start t v) = freq v" "attack (start t v) = attack v"
  "decay (start t v) = decay v" "sustain (start t v) = sustain v"
  "release (start t v) = release v" "maxGain (start t v) = maxGain v"
  "osc (start t v) = osc v" "dest (start t v) = dest v"
  by (simp_all add: start_def resetEnvelopes_def Let_def)

lemma fields_stop:
  "freq (stop t v) = freq v" "attack (stop t v) = attack v"
  "decay (stop t v) = decay v" "sustain (stop t v) = sustain v"
  "release (stop t v) = release v" "maxGain (stop t v) = maxGain v"
  "dest (stop t v) = dest v"
  by (simp_all add: stop_unfold resetEnvelopes_def Let_def)

lemma fields_render_voice:
  "freq (render_voice t v) = freq v" "attack (render_voice t v) = attack v"
  "decay (render_voice t v) = decay v" "sustain (render_voice t v) = sustain v"
  "release (render_voice t v) = release v" "maxGain (render_voice t v) = maxGain v"
  "osc (render_voice t v) = osc v" "dest (render_voice t v) = dest v"
  by (simp_all add: render_voice_def)

lemma events_from_split:
  assumes "events q = filter (\<lambda>e. ev_time e < t) es @ rest" and "\<forall>e \<in> set rest. t \<le> ev_time e"
  shows "events_from t q = rest"
proof -
  have "filter (\<lambda>e. t \<le> ev_time e) (filter (\<lambda>e. ev_time e < t) es) = []"
    by (induction es) auto
  moreover have "filter (\<lambda>e. t \<le> ev_time e) rest = rest"
    using assms(2) by (induction rest) auto
  ultimately show ?thesis by (simp add: events_from_def assms(1))
qed

lemma new_fields:
  "freq (new_GenSynthNote d m a dc s r) = mtof m"
  "attack (new_GenSynthNote d m a dc s r) = a"
  "decay (new_GenSynthNote d m a dc s r) = dc"
  "sustain (new_GenSynthNote d m a dc s r) = s"
  "release (new_GenSynthNote d m a dc s r) = r"
  "maxGain (new_GenSynthNote d m a dc s r) = 0.25"
  "stop_calls (osc (new_GenSynthNote d m a dc s r)) = []"
  "started (osc (new_GenSynthNote d m a dc s r)) = False"
  "stop_at (osc (new_GenSynthNote d m a dc s r)) = None"
  "gain (adsr (new_GenSynthNote d m a dc s r)) = \<lparr>current = 0, events = []\<rparr>"
  "frequency (lpFilter (new_GenSynthNote d m a dc s r)) = \<lparr>current = mtof m * 8, events = []\<rparr>"
  "dest (new_GenSynthNote d m a dc s r) = d"
  by (simp_all add: new_GenSynthNote_def Let_def)

lemma mtof_69: "mtof 69 = 440"
  by (simp add: mtof_def)

lemma mtof_60_pow: "(mtof 60 / 440) ^ 4 = 1 / 8"
proof -
  have e: "mtof 60 / 440 = 2 powr (- (3 / 4))" by (simp add: mtof_def)
  have "(2 powr (- (3 / 4))) ^ 4 = (2 powr (- (3 / 4)) :: real) powr (real 4)"
    by (rule powr_realpow [symmetric]) simp
  also have "\<dots> = 2 powr (- (3 / 4) * real 4)" by (rule powr_powr)
  also have "- (3 / 4) * real 4 = - real 3" by simp
  also have "2 powr (- real 3) = inverse ((2::real) powr (real 3))" by (rule powr_minus)
  also have "(2::real) powr (real 3) = 2 ^ 3" by (rule powr_realpow) simp
  finally show ?thesis using e by simp
qed

lemma mtof_60_bounds: "261.62 < mtof 60 \<and> mtof 60 < 261.63"
proof -
  have pos: "0 \<le> mtof 60 / 440" by (simp add: mtof_def)
  have "(261.62 / 440 :: real) ^ 4 < (mtof 60 / 440) ^ 4"
    unfolding mtof_60_pow by (simp add: power4_eq_xxxx)
  then have lo: "261.62 / 440 < mtof 60 / 440"
    using pos by (rule power_less_imp_less_base)
  have "(mtof 60 / 440) ^ 4 < (261.63 / 440 :: real) ^ 4"
    unfolding mtof_60_pow by (simp add: power4_eq_xxxx)
  then have hi: "mtof 60 / 440 < 261.63 / 440"
    by (rule power_less_imp_less_base) simp
  from lo hi show ?thesis by simp
qed


lemma events_gain_start:
  assumes "0 \<le> attack v" and "0 \<le> decay v"
  shows "events (gain (adsr (start now v)))
           = filter (\<lambda>e. ev_time e < now) (events (gain (adsr v)))
               @ [SetValue (current (gain (adsr v))) now,
                  LinearRamp (maxGain v) (now + attack v),
                  LinearRamp (maxGain v * sustain v) (now + attack v + decay v)]"
  using assms by (simp add: gain_start events_ramp_ramp_anchor)

lemma events_frequency_start:
  assumes "0 \<le> attack v + decay v"
  shows "events (frequency (lpFilter (start now v)))
           = filter (\<lambda>e. ev_time e < now) (events (frequency (lpFilter v)))
               @ [SetValue (current (frequency (lpFilter v))) now,
                  LinearRamp (freq v * 2) (now + attack v + decay v)]"
  using assms by (simp add: frequency_start events_ramp_anchor)

lemma events_gain_stop:
  assumes "0 \<le> release v"
  shows "events (gain (adsr (stop now v)))
           = filter (\<lambda>e. ev_time e < now) (events (gain (adsr v)))
               @ [SetValue (current (gain (adsr v))) now, LinearRamp 0 (now + release v)]"
  using assms by (simp add: gain_stop events_ramp_anchor)

lemma value_gain_start:
  assumes "0 \<le> attack v" and "0 \<le> decay v" and "now \<le> t"
  shows "value_at (gain (adsr (start now v))) t
           = eval_events (current (gain (adsr v))) (Some now)
               [LinearRamp (maxGain v) (now + attack v),
                LinearRamp (maxGain v * sustain v) (now + attack v + decay v)] t"
  by (rule value_at_after_anchor [OF _ assms(3)]) (simp add: events_gain_start assms)

lemma value_frequency_start:
  assumes "0 \<le> attack v + decay v" and "now \<le> t"
  shows "value_at (frequency (lpFilter (start now v))) t
           = eval_events (current (frequency (lpFilter v))) (Some now)
               [LinearRamp (freq v * 2) (now + attack v + decay v)] t"
  by (rule value_at_after_anchor [OF _ assms(2)]) (simp add: events_frequency_start assms)

lemma value_gain_stop:
  assumes "0 \<le> release v" and "now \<le> t"
  shows "value_at (gain (adsr (stop now v))) t
           = eval_events (current (gain (adsr v))) (Some now)
               [LinearRamp 0 (now + release v)] t"
  by (rule value_at_after_anchor [OF _ assms(2)]) (simp add: events_gain_stop assms)


lemma gain_render_voice: "gain (adsr (render_voice t v)) = render t (gain (adsr v))"
  by (simp add: render_voice_def)




section \<open>The voice on its own\<close>

text \<open>
  C10: a freshly constructed voice is silent until \<open>start\<close> is called: the gain is
  constructed with the value 0 and no scheduled event, so its timeline gives 0 at every
  time. The peak gain \<open>maxGain\<close> is 0.25 whatever the arguments of the constructor are, and
  \<open>resetEnvelopes\<close>, \<open>start\<close> and \<open>stop\<close> leave it as it is.
\<close>

theorem C10_silent_until_start_fixed_peak:
  "current (gain (adsr (new_GenSynthNote d m a dc s r))) = 0
   \<and> events (gain (adsr (new_GenSynthNote d m a dc s r))) = []
   \<and> value_at (gain (adsr (new_GenSynthNote d m a dc s r))) t = 0
   \<and> maxGain (new_GenSynthNote d m a dc s r) = 0.25
   \<and> maxGain (resetEnvelopes t v) = maxGain v
   \<and> maxGain (start t v) = maxGain v
   \<and> maxGain (stop t v) = maxGain v"
  by (simp add: new_fields value_at_def fields_resetEnvelopes fields_start fields_stop)

text \<open>
  C7: for every integer pitch code \<open>p\<close> the frequency stored by the constructor (and given
  to the oscillator) is \<open>440 * 2 powr ((p - 69) / 12)\<close>; pitch 69 gives 440 Hz and pitch 60
  a value between 261.62 and 261.63 Hz. The field is written by the constructor only:
  \<open>resetEnvelopes\<close>, \<open>start\<close> and \<open>stop\<close> leave it as it is.
\<close>

theorem C7_frequency_from_pitch:
  "freq (new_GenSynthNote d (real_of_int p) a dc s r) = 440 * 2 powr ((real_of_int p - 69) / 12)
   \<and> osc_frequency (osc (new_GenSynthNote d (real_of_int p) a dc s r))
       = 440 * 2 powr ((real_of_int p - 69) / 12)
   \<and> mtof 69 = 440
   \<and> 261.62 < mtof 60 \<and> mtof 60 < 261.63
   \<and> freq (resetEnvelopes t v) = freq v
   \<and> freq (start t v) = freq v
   \<and> freq (stop t v) = freq v"
proof -
  have "freq (new_GenSynthNote d (real_of_int p) a dc s r) = 440 * 2 powr ((real_of_int p - 69) / 12)"
    by (simp add: new_fields mtof_def)
  moreover have "osc_frequency (osc (new_GenSynthNote d (real_of_int p) a dc s r))
       = 440 * 2 powr ((real_of_int p - 69) / 12)"
    by (simp add: new_GenSynthNote_def Let_def mtof_def)
  moreover have "freq (resetEnvelopes t v) = freq v \<and> freq (start t v) = freq v \<and> freq (stop t v) = freq v"
    by (simp add: fields_resetEnvelopes fields_start fields_stop)
  ultimately show ?thesis
    using mtof_69 mtof_60_bounds by blast
qed

section \<open>The envelopes that \<open>start\<close> and \<open>stop\<close> schedule\<close>

text \<open>
  C1, as amended: let \<open>start\<close> be called at \<open>now\<close> on a voice with \<open>attack\<close> and \<open>decay\<close> not
  negative. From \<open>now\<close> on the gain's timeline is the anchor at the value read, a ramp to
  \<open>maxGain\<close> ending at \<open>now + attack\<close> and a ramp to \<open>maxGain * sustain\<close> ending at
  \<open>now + attack + decay\<close>. On the attack leg the gain is on the straight line from the
  anchored value to \<open>maxGain\<close>, on the decay leg on the straight line from \<open>maxGain\<close> (the
  end of the attack leg) to \<open>maxGain * sustain\<close>, and from \<open>now + attack + decay\<close> on it is
  \<open>maxGain * sustain\<close>. The gain at \<open>now + attack\<close> is \<open>maxGain\<close> when \<open>decay\<close> is positive or
  \<open>sustain\<close> is 1.
\<close>

theorem C1_attack_decay_legs:
  assumes "0 \<le> attack v" and "0 \<le> decay v"
  shows "events_from now (gain (adsr (start now v)))
           = [SetValue (current (gain (adsr v))) now,
              LinearRamp (maxGain v) (now + attack v),
              LinearRamp (maxGain v * sustain v) (now + attack v + decay v)]
       \<and> (now \<le> t \<and> t < now + attack v \<longrightarrow>
            value_at (gain (adsr (start now v))) t
              = lerp now (current (gain (adsr v))) (now + attack v) (maxGain v) t)
       \<and> (now + attack v \<le> t \<and> t < now + attack v + decay v \<longrightarrow>
            value_at (gain (adsr (start now v))) t
              = lerp (now + attack v) (maxGain v) (now + attack v + decay v)
                  (maxGain v * sustain v) t)
       \<and> (now + attack v + decay v \<le> t \<longrightarrow>
            value_at (gain (adsr (start now v))) t = maxGain v * sustain v)
       \<and> (0 < decay v \<or> sustain v = 1 \<longrightarrow>
            value_at (gain (adsr (start now v))) (now + attack v) = maxGain v)
       \<and> value_at (gain (adsr (start now v))) (now + attack v + decay v)
            = maxGain v * sustain v"
proof -
  have ev: "events_from now (gain (adsr (start now v)))
           = [SetValue (current (gain (adsr v))) now,
              LinearRamp (maxGain v) (now + attack v),
              LinearRamp (maxGain v * sustain v) (now + attack v + decay v)]"
    by (rule events_from_split [OF events_gain_start [OF assms]]) (use assms in auto)
  have val: "\<And>u. now \<le> u \<Longrightarrow> value_at (gain (adsr (start now v))) u
           = eval_events (current (gain (adsr v))) (Some now)
               [LinearRamp (maxGain v) (now + attack v),
                LinearRamp (maxGain v * sustain v) (now + attack v + decay v)] u"
    using assms by (rule value_gain_start)
  have leg1: "now \<le> t \<and> t < now + attack v \<longrightarrow>
            value_at (gain (adsr (start now v))) t
              = lerp now (current (gain (adsr v))) (now + attack v) (maxGain v) t"
    by (simp add: val lerp_def)
  have leg2: "now + attack v \<le> t \<and> t < now + attack v + decay v \<longrightarrow>
            value_at (gain (adsr (start now v))) t
              = lerp (now + attack v) (maxGain v) (now + attack v + decay v)
                  (maxGain v * sustain v) t"
    using assms by (simp add: val lerp_def)
  have hold: "now + attack v + decay v \<le> t \<longrightarrow>
            value_at (gain (adsr (start now v))) t = maxGain v * sustain v"
    using assms by (simp add: val)
  have peak: "0 < decay v \<or> sustain v = 1 \<longrightarrow>
            value_at (gain (adsr (start now v))) (now + attack v) = maxGain v"
    using assms by (auto simp add: val)
  have sus: "value_at (gain (adsr (start now v))) (now + attack v + decay v)
            = maxGain v * sustain v"
    using assms by (simp add: val)
  from ev leg1 leg2 hold peak sus show ?thesis by blast
qed


theorem C1_attack_decay_legs_witness:
  "0 \<le> attack (new_GenSynthNote 0 69 (1/100) (1/10) (1/4) (9/10))
   \<and> 0 \<le> decay (new_GenSynthNote 0 69 (1/100) (1/10) (1/4) (9/10))
   \<and> value_at (gain (adsr (start 0 (new_GenSynthNote 0 69 (1/100) (1/10) (1/4) (9/10))))) (1/200) = 1/8
   \<and> value_at (gain (adsr (start 0 (new_GenSynthNote 0 69 (1/100) (1/10) (1/4) (9/10))))) (1/100) = 1/4
   \<and> value_at (gain (adsr (start 0 (new_GenSynthNote 0 69 (1/100) (1/10) (1/4) (9/10))))) (6/100) = 5/32
   \<and> value_at (gain (adsr (start 0 (new_GenSynthNote 0 69 (1/100) (1/10) (1/4) (9/10))))) (11/100) = 1/16
   \<and> value_at (gain (adsr (start 0 (new_GenSynthNote 0 69 (1/100) (1/10) (1/4) (9/10))))) 1 = 1/16"
  using C1_attack_decay_legs [of "new_GenSynthNote 0 69 (1/100) (1/10) (1/4) (9/10)" 0 "1/200"]
        C1_attack_decay_legs [of "new_GenSynthNote 0 69 (1/100) (1/10) (1/4) (9/10)" 0 "6/100"]
        C1_attack_decay_legs [of "new_GenSynthNote 0 69 (1/100) (1/10) (1/4) (9/10)" 0 1]
  by (simp add: new_fields lerp_def)

text \<open>
  C1 as stated fails when \<open>decay\<close> is 0 and \<open>sustain\<close> is below 1: both ramps end at
  \<open>now + attack\<close>, and the gain there is the later one's target \<open>maxGain * sustain\<close>.
  With attack 0.01, decay 0 and sustain 0.25 the gain at \<open>now + attack\<close> is 0.0625, not 0.25.
\<close>

theorem C1_zero_decay_counterexample:
  "0 \<le> attack (new_GenSynthNote 0 69 (1/100) 0 (1/4) (9/10))
   \<and> 0 \<le> decay (new_GenSynthNote 0 69 (1/100) 0 (1/4) (9/10))
   \<and> 0 \<le> sustain (new_GenSynthNote 0 69 (1/100) 0 (1/4) (9/10))
   \<and> sustain (new_GenSynthNote 0 69 (1/100) 0 (1/4) (9/10)) \<le> 1
   \<and> 0 \<le> release (new_GenSynthNote 0 69 (1/100) 0 (1/4) (9/10))
   \<and> maxGain (new_GenSynthNote 0 69 (1/100) 0 (1/4) (9/10)) = 1/4
   \<and> value_at (gain (adsr (start 0 (new_GenSynthNote 0 69 (1/100) 0 (1/4) (9/10)))))
        (0 + attack (new_GenSynthNote 0 69 (1/100) 0 (1/4) (9/10))) = 1/16
   \<and> value_at (gain (adsr (start 0 (new_GenSynthNote 0 69 (1/100) 0 (1/4) (9/10)))))
        (0 + attack (new_GenSynthNote 0 69 (1/100) 0 (1/4) (9/10)))
       \<noteq> maxGain (new_GenSynthNote 0 69 (1/100) 0 (1/4) (9/10))"
  by (simp add: new_fields value_gain_start)


lemma current_render: "current (render tq p) = value_at p tq"
  by (simp add: render_def)




lemma stop_release_ramp:
  assumes "0 \<le> release v"
  shows "events_from now (gain (adsr (stop now v)))
           = [SetValue (current (gain (adsr v))) now, LinearRamp 0 (now + release v)]
       \<and> (now \<le> t \<and> t < now + release v \<longrightarrow>
            value_at (gain (adsr (stop now v))) t
              = lerp now (current (gain (adsr v))) (now + release v) 0 t)
       \<and> (now + release v \<le> t \<longrightarrow> value_at (gain (adsr (stop now v))) t = 0)"
proof -
  have ev: "events_from now (gain (adsr (stop now v)))
           = [SetValue (current (gain (adsr v))) now, LinearRamp 0 (now + release v)]"
    by (rule events_from_split [OF events_gain_stop [OF assms]]) (use assms in auto)
  have ramp: "now \<le> t \<and> t < now + release v \<longrightarrow>
            value_at (gain (adsr (stop now v))) t
              = lerp now (current (gain (adsr v))) (now + release v) 0 t"
    using assms by (simp add: value_gain_stop lerp_def)
  have silent: "now + release v \<le> t \<longrightarrow> value_at (gain (adsr (stop now v))) t = 0"
    using assms by (simp add: value_gain_stop)
  from ev ramp silent show ?thesis by blast
qed

text \<open>
  C2: the class never starts its oscillator. The constructor builds it not started, and
  \<open>resetEnvelopes\<close>, \<open>start\<close> and \<open>stop\<close> leave it so. On every voice the constructor makes,
  after one call of \<open>start\<close> or two, \<open>stop\<close> therefore ends with \<open>InvalidStateError\<close> at its
  last statement and no stop of the oscillator is scheduled. On the voice with attack
  0.01, decay 0.1, sustain 0.25 and release 0.9, started at 0 and last computed at 0.12,
  \<open>stop\<close> at 0.125 schedules the ramp of the gain from 0.0625 to 0 ending at 1.025, asks
  the oscillator to stop at 1.025 and ends with the error, the oscillator's stop not
  scheduled.
\<close>

theorem C2_stop_raises_oscillator_not_started:
  "started (osc (new_GenSynthNote d m a dc s r)) = False
   \<and> started (osc (resetEnvelopes now v)) = started (osc v)
   \<and> started (osc (start now v)) = started (osc v)
   \<and> started (osc (stop now v)) = started (osc v)
   \<and> fst (stop_run t2 (start t1 (new_GenSynthNote d m a dc s r))) = Some InvalidStateError
   \<and> stop_at (osc (stop t2 (start t1 (new_GenSynthNote d m a dc s r)))) = None
   \<and> fst (stop_run t3 (start t2 (start t1 (new_GenSynthNote d m a dc s r))))
       = Some InvalidStateError
   \<and> stop_at (osc (stop t3 (start t2 (start t1 (new_GenSynthNote d m a dc s r))))) = None
   \<and> fst (stop_run (1/8) (render_voice (3/25)
        (start 0 (new_GenSynthNote 0 69 (1/100) (1/10) (1/4) (9/10))))) = Some InvalidStateError
   \<and> stop_at (osc (stop (1/8) (render_voice (3/25)
        (start 0 (new_GenSynthNote 0 69 (1/100) (1/10) (1/4) (9/10)))))) = None
   \<and> stop_calls (osc (stop (1/8) (render_voice (3/25)
        (start 0 (new_GenSynthNote 0 69 (1/100) (1/10) (1/4) (9/10)))))) = [41/40]
   \<and> events_from (1/8) (gain (adsr (stop (1/8) (render_voice (3/25)
        (start 0 (new_GenSynthNote 0 69 (1/100) (1/10) (1/4) (9/10)))))))
       = [SetValue (1/16) (1/8), LinearRamp 0 (41/40)]"
proof -
  let ?v = "new_GenSynthNote 0 69 (1/100) (1/10) (1/4) (9/10)"
  let ?u = "render_voice (3/25) (start 0 ?v)"
  have st: "started (osc (new_GenSynthNote d m a dc s r)) = False
   \<and> started (osc (resetEnvelopes now v)) = started (osc v)
   \<and> started (osc (start now v)) = started (osc v)
   \<and> started (osc (stop now v)) = started (osc v)"
    by (simp add: new_fields fields_resetEnvelopes fields_start started_stop)
  have one: "fst (stop_run t2 (start t1 (new_GenSynthNote d m a dc s r))) = Some InvalidStateError
   \<and> stop_at (osc (stop t2 (start t1 (new_GenSynthNote d m a dc s r)))) = None"
    by (simp add: stop_run_error stop_at_stop fields_start new_fields)
  have two: "fst (stop_run t3 (start t2 (start t1 (new_GenSynthNote d m a dc s r))))
       = Some InvalidStateError
   \<and> stop_at (osc (stop t3 (start t2 (start t1 (new_GenSynthNote d m a dc s r))))) = None"
    by (simp add: stop_run_error stop_at_stop fields_start new_fields)
  have c1: "fst (stop_run (1/8) ?u) = Some InvalidStateError \<and> stop_at (osc (stop (1/8) ?u)) = None
   \<and> stop_calls (osc (stop (1/8) ?u)) = [41/40]"
    by (simp add: stop_run_error stop_at_stop stop_calls_stop fields_render_voice fields_start
        new_fields)
  have pv: "0 \<le> attack ?v" "0 \<le> decay ?v" "(0::real) \<le> 3/25" by (simp_all add: new_fields)
  have cur: "current (gain (adsr ?u)) = 1/16"
    by (simp add: gain_render_voice current_render value_gain_start [OF pv] new_fields)
  have rel: "0 \<le> release ?u" "release ?u = 9/10"
    by (simp_all add: fields_render_voice fields_start new_fields)
  from stop_release_ramp [OF rel(1), of "1/8"]
  have c2: "events_from (1/8) (gain (adsr (stop (1/8) ?u))) = [SetValue (1/16) (1/8), LinearRamp 0 (41/40)]"
    by (simp add: cur rel(2))
  from st one two c1 c2 show ?thesis by blast
qed





text \<open>
  C6: let \<open>start\<close> be called at \<open>now\<close> on a voice with \<open>attack\<close> and \<open>decay\<close> not negative.
  From \<open>now\<close> on the cutoff's timeline is the anchor at the value read and one ramp to
  \<open>2 * freq\<close>, which ends at \<open>now + attack + decay\<close>, the end of the gain's decay leg. The
  cutoff is on the straight line from the anchored value to \<open>2 * freq\<close> and stays at
  \<open>2 * freq\<close> from \<open>now + attack + decay\<close> on. A later \<open>stop\<close> at \<open>t2\<close> anchors the cutoff
  and schedules nothing else on it.
\<close>

theorem C6_one_cutoff_ramp:
  assumes "0 \<le> attack v" and "0 \<le> decay v"
  shows "events_from now (frequency (lpFilter (start now v)))
           = [SetValue (current (frequency (lpFilter v))) now,
              LinearRamp (freq v * 2) (now + attack v + decay v)]
       \<and> ev_time (last (events (frequency (lpFilter (start now v)))))
           = ev_time (last (events (gain (adsr (start now v)))))
       \<and> (now \<le> t \<and> t < now + attack v + decay v \<longrightarrow>
            value_at (frequency (lpFilter (start now v))) t
              = lerp now (current (frequency (lpFilter v))) (now + attack v + decay v)
                  (freq v * 2) t)
       \<and> (now + attack v + decay v \<le> t \<longrightarrow>
            value_at (frequency (lpFilter (start now v))) t = freq v * 2)
       \<and> events_from t2 (frequency (lpFilter (stop t2 (start now v))))
           = [SetValue (current (frequency (lpFilter v))) t2]"
proof -
  have ad: "0 \<le> attack v + decay v" using assms by simp
  have ev: "events_from now (frequency (lpFilter (start now v)))
           = [SetValue (current (frequency (lpFilter v))) now,
              LinearRamp (freq v * 2) (now + attack v + decay v)]"
    by (rule events_from_split [OF events_frequency_start [OF ad]]) (use ad in auto)
  have same: "ev_time (last (events (frequency (lpFilter (start now v)))))
           = ev_time (last (events (gain (adsr (start now v)))))"
    by (simp add: events_frequency_start [OF ad] events_gain_start [OF assms])
  have ramp: "now \<le> t \<and> t < now + attack v + decay v \<longrightarrow>
            value_at (frequency (lpFilter (start now v))) t
              = lerp now (current (frequency (lpFilter v))) (now + attack v + decay v)
                  (freq v * 2) t"
    using ad by (simp add: value_frequency_start lerp_def)
  have hold: "now + attack v + decay v \<le> t \<longrightarrow>
            value_at (frequency (lpFilter (start now v))) t = freq v * 2"
    using ad by (simp add: value_frequency_start)
  have cur: "current (frequency (lpFilter (start now v))) = current (frequency (lpFilter v))"
    by (simp add: frequency_start current_ramp current_anchor)
  have "events (frequency (lpFilter (stop t2 (start now v))))
          = filter (\<lambda>e. ev_time e < t2) (events (frequency (lpFilter (start now v))))
              @ [SetValue (current (frequency (lpFilter v))) t2]"
    by (simp add: frequency_stop events_anchor cur)
  then have rel: "events_from t2 (frequency (lpFilter (stop t2 (start now v))))
           = [SetValue (current (frequency (lpFilter v))) t2]"
    by (rule events_from_split) simp
  from ev same ramp hold rel show ?thesis by blast
qed

theorem C6_one_cutoff_ramp_witness:
  "0 \<le> attack (new_GenSynthNote 0 69 (1/100) (1/10) (1/4) (9/10))
   \<and> 0 \<le> decay (new_GenSynthNote 0 69 (1/100) (1/10) (1/4) (9/10))
   \<and> events_from 0 (frequency (lpFilter (start 0 (new_GenSynthNote 0 69 (1/100) (1/10) (1/4) (9/10)))))
       = [SetValue 3520 0, LinearRamp 880 (11/100)]
   \<and> value_at (frequency (lpFilter (start 0 (new_GenSynthNote 0 69 (1/100) (1/10) (1/4) (9/10))))) (11/200)
       = 2200
   \<and> value_at (frequency (lpFilter (start 0 (new_GenSynthNote 0 69 (1/100) (1/10) (1/4) (9/10))))) (1/8)
       = 880"
  using C6_one_cutoff_ramp [of "new_GenSynthNote 0 69 (1/100) (1/10) (1/4) (9/10)" 0 "11/200"]
        C6_one_cutoff_ramp [of "new_GenSynthNote 0 69 (1/100) (1/10) (1/4) (9/10)" 0 "1/8"]
  by (simp add: new_fields mtof_69 lerp_def)

text \<open>
  C4, as amended: a second call of \<open>stop\<close> is treated like the first. After \<open>stop\<close> at \<open>t1\<close>
  and \<open>stop\<close> at \<open>t2\<close> the oscillator has been asked to stop twice more, at \<open>t1 + release\<close>
  and at \<open>t2 + release\<close>; the second call anchors the gain at \<open>t2\<close> again; no field of the
  voice records that \<open>stop\<close> has been called, so the two calls differ in their clock
  reading only.
\<close>

theorem C4_second_stop_asks_again:
  "stop_calls (osc (stop t2 (stop t1 v)))
     = stop_calls (osc v) @ [t1 + release v, t2 + release v]
   \<and> length (stop_calls (osc (stop t2 (stop t1 v)))) = length (stop_calls (osc v)) + 2
   \<and> gain (adsr (stop t2 (stop t1 v)))
       = linearRampToValueAtTime 0 (t2 + release v) (anchor t2 (gain (adsr (stop t1 v))))
   \<and> frequency (lpFilter (stop t2 (stop t1 v))) = anchor t2 (frequency (lpFilter (stop t1 v)))"
  by (simp add: stop_calls_stop fields_stop gain_stop frequency_stop)

text \<open>
  C4 as stated fails: on a voice that was started at 0 and stopped at 1, \<open>stop\<close> at 2 asks
  the oscillator to stop a second time.
\<close>

theorem C4_second_stop_counterexample:
  "stop_calls (osc (stop 1 (start 0 (new_GenSynthNote 0 69 (1/100) (1/10) (1/4) (9/10))))) = [19/10]
   \<and> stop_calls (osc (stop 2 (stop 1 (start 0 (new_GenSynthNote 0 69 (1/100) (1/10) (1/4) (9/10))))))
       = [19/10, 29/10]"
  by (simp add: stop_calls_stop fields_stop fields_start new_fields)

section \<open>The playback script: pitch, snapshot, timers\<close>

lemma pick_index_bounds:
  assumes "pool \<noteq> []" and "0 \<le> r" and "r < 1"
  shows "0 \<le> pick_index pool r \<and> pick_index pool r < int (length pool)"
proof -
  have n: "0 < real (length pool)" using assms(1) by simp
  have "0 \<le> r * real (length pool)" using assms(2) by simp
  then have lo: "0 \<le> pick_index pool r" by (simp add: pick_index_def)
  have "r * real (length pool) < 1 * real (length pool)"
    using assms(3) n by (rule mult_strict_right_mono)
  then have "r * real (length pool) < real_of_int (int (length pool))" by simp
  then have hi: "pick_index pool r < int (length pool)"
    unfolding pick_index_def by (simp only: floor_less_iff)
  from lo hi show ?thesis by simp
qed

lemma pick_index_interval:
  assumes "pool \<noteq> []"
  shows "(pick_index pool r = int i)
           = (real i / real (length pool) \<le> r \<and> r < (real i + 1) / real (length pool))"
proof -
  have n: "0 < real (length pool)" using assms by simp
  have "(pick_index pool r = int i)
          = (real_of_int (int i) \<le> r * real (length pool) \<and> r * real (length pool) < real_of_int (int i) + 1)"
    unfolding pick_index_def by (rule floor_eq_iff)
  also have "\<dots> = (real i / real (length pool) \<le> r \<and> r < (real i + 1) / real (length pool))"
    using n by (simp add: pos_divide_le_eq pos_less_divide_eq)
  finally show ?thesis .
qed

lemma pick_member:
  assumes "pool \<noteq> []" and "0 \<le> r" and "r < 1"
  shows "pick pool r = Some (pool ! nat (pick_index pool r)) \<and> pool ! nat (pick_index pool r) \<in> set pool"
proof -
  from pick_index_bounds [OF assms]
  have b: "0 \<le> pick_index pool r" "pick_index pool r < int (length pool)" by simp_all
  then have "nat (pick_index pool r) < length pool" by simp
  then have "pool ! nat (pick_index pool r) \<in> set pool" by (rule nth_mem)
  moreover have "pick pool r = Some (pool ! nat (pick_index pool r))"
    using b by (simp add: pick_def Let_def)
  ultimately show ?thesis by simp
qed

lemma midiNotes_nonempty: "midiNotes \<noteq> []"
  by (simp add: midiNotes_def)

lemma playANote_Some:
  "playANote r now st = Some st' \<Longrightarrow>
   \<exists>p. pick midiNotes r = Some p \<and>
     st' = st\<lparr>note_objs := note_objs st @
                [start now (new_GenSynthNote (delay st) (real_of_int p) (attack_var st) (decay_var st)
                   (sustain_var st) (release_var st))],
              timers := timers st @ [(next_id st, Timeout (length (note_objs st)) (loopTime st))],
              next_id := Suc (next_id st)\<rparr>"
  by (auto simp: playANote_def setTimer_def Let_def split: option.splits)

text \<open>
  C8: for a non-empty pool and a draw \<open>r\<close> with \<open>0 \<le> r < 1\<close>, the index
  \<open>floor (r * length pool)\<close> is within the bounds of the pool, so the pitch read is a member
  of the pool. The index is \<open>i\<close> exactly when \<open>r\<close> lies in the interval from \<open>i / n\<close> to
  \<open>(i + 1) / n\<close> (\<open>n\<close> the length of the pool): every index has an interval of the same
  length. With such a draw \<open>playANote\<close> appends to the script's voices the one voice
  constructed from the pitch of \<open>midiNotes\<close> at the index \<open>floor (r * 15)\<close> and started at
  \<open>now\<close>; that pitch is a member of \<open>midiNotes\<close>, in which no pitch occurs twice, and the
  index is \<open>i\<close> exactly when \<open>r\<close> lies between \<open>i / 15\<close> and \<open>(i + 1) / 15\<close>. A firing of a
  periodic timer that is set does what \<open>playANote\<close> does.
\<close>

theorem C8_pick_in_pool:
  assumes "pool \<noteq> []" and "0 \<le> r" and "r < 1"
  shows "0 \<le> pick_index pool r \<and> pick_index pool r < int (length pool)
       \<and> pick pool r = Some (pool ! nat (pick_index pool r))
       \<and> pool ! nat (pick_index pool r) \<in> set pool
       \<and> (pick_index pool r = int i)
           = (real i / real (length pool) \<le> r \<and> r < (real i + 1) / real (length pool))
       \<and> playANote r now st
           = Some (st\<lparr>note_objs := note_objs st @
                       [start now (new_GenSynthNote (delay st)
                          (real_of_int (midiNotes ! nat (pick_index midiNotes r)))
                          (attack_var st) (decay_var st) (sustain_var st) (release_var st))],
                     timers := timers st @ [(next_id st, Timeout (length (note_objs st)) (loopTime st))],
                     next_id := Suc (next_id st)\<rparr>)
       \<and> (\<exists>st'. playANote r now st = Some st'
             \<and> freq (last (note_objs st'))
                 = mtof (real_of_int (midiNotes ! nat (pick_index midiNotes r))))
       \<and> midiNotes ! nat (pick_index midiNotes r) \<in> set midiNotes
       \<and> (pick_index midiNotes r = int i) = (real i / 15 \<le> r \<and> r < (real i + 1) / 15)
       \<and> (map_of (timers st) j = Some (Interval ms) \<longrightarrow>
            Some (interval_fires j r now st) = playANote r now st)
       \<and> distinct midiNotes"
proof -
  have dist: "distinct midiNotes" by (simp add: midiNotes_def)
  have len: "real (length midiNotes) = 15" by (simp add: midiNotes_def)
  from pick_member [OF midiNotes_nonempty assms(2,3)]
  have p: "pick midiNotes r = Some (midiNotes ! nat (pick_index midiNotes r))"
    and mem: "midiNotes ! nat (pick_index midiNotes r) \<in> set midiNotes"
    by simp_all
  have play: "playANote r now st
           = Some (st\<lparr>note_objs := note_objs st @
                       [start now (new_GenSynthNote (delay st)
                          (real_of_int (midiNotes ! nat (pick_index midiNotes r)))
                          (attack_var st) (decay_var st) (sustain_var st) (release_var st))],
                     timers := timers st @ [(next_id st, Timeout (length (note_objs st)) (loopTime st))],
                     next_id := Suc (next_id st)\<rparr>)"
    by (simp add: playANote_def p setTimer_def Let_def)
  have fr: "\<exists>st'. playANote r now st = Some st'
             \<and> freq (last (note_objs st'))
                 = mtof (real_of_int (midiNotes ! nat (pick_index midiNotes r)))"
    by (simp add: play fields_start new_fields)
  have iv: "(pick_index midiNotes r = int i) = (real i / 15 \<le> r \<and> r < (real i + 1) / 15)"
    using pick_index_interval [OF midiNotes_nonempty, of r i] by (simp only: len)
  have fire: "map_of (timers st) j = Some (Interval ms) \<longrightarrow>
            Some (interval_fires j r now st) = playANote r now st"
    by (simp add: interval_fires_def play)
  from pick_index_bounds [OF assms] pick_member [OF assms] pick_index_interval [OF assms(1)]
    play fr mem iv fire dist
  show ?thesis by blast
qed

theorem C8_pick_in_pool_witness:
  "midiNotes \<noteq> [] \<and> (0::real) \<le> 1/2 \<and> (1/2::real) < 1
   \<and> pick_index midiNotes (1/2) = 7
   \<and> pick midiNotes (1/2) = Some 65
   \<and> (65::int) \<in> set midiNotes
   \<and> map_of (timers ((init_script 0)\<lparr>timers := [(1, Interval 125)], next_id := 2,
                                       looper := Some 1\<rparr>)) 1 = Some (Interval 125)
   \<and> interval_fires 1 (1/2) 0
        ((init_script 0)\<lparr>timers := [(1, Interval 125)], next_id := 2, looper := Some 1\<rparr>)
       = (init_script 0)\<lparr>note_objs := [start 0 (new_GenSynthNote 0 65 (1/100) (1/10) (1/4) (9/10))],
                          timers := [(1, Interval 125), (2, Timeout 0 125)],
                          next_id := 3, looper := Some 1\<rparr>"
proof -
  let ?st = "(init_script 0)\<lparr>timers := [(1, Interval 125)], next_id := 2, looper := Some 1\<rparr>"
  have h: "midiNotes \<noteq> []" "(0::real) \<le> 1/2" "(1/2::real) < 1"
    by (simp_all add: midiNotes_def)
  have i: "pick_index midiNotes (1/2) = 7"
    by (simp add: pick_index_def midiNotes_def)
  have n: "midiNotes ! nat 7 = 65" "(65::int) \<in> set midiNotes"
    by (simp_all add: midiNotes_def)
  have m: "map_of (timers ?st) 1 = Some (Interval 125)"
    by simp
  from C8_pick_in_pool [OF h, of 7 0 ?st 1 125] m
  have f: "Some (interval_fires 1 (1/2) 0 ?st)
      = Some (?st\<lparr>note_objs := note_objs ?st @
                       [start 0 (new_GenSynthNote (delay ?st)
                          (real_of_int (midiNotes ! nat (pick_index midiNotes (1/2))))
                          (attack_var ?st) (decay_var ?st) (sustain_var ?st) (release_var ?st))],
                     timers := timers ?st @ [(next_id ?st, Timeout (length (note_objs ?st)) (loopTime ?st))],
                     next_id := Suc (next_id ?st)\<rparr>)"
    by simp
  from C8_pick_in_pool [OF h, of 7 0 ?st 1 125]
  have g: "pick midiNotes (1/2) = Some (midiNotes ! nat (pick_index midiNotes (1/2)))"
    by blast
  from f g h i n m show ?thesis
    by (simp add: init_script_def)
qed

lemma note_objs_sliders:
  "note_objs (attTime_input x st) = note_objs st"
  "note_objs (decTime_input x st) = note_objs st"
  "note_objs (susAmp_input x st) = note_objs st"
  "note_objs (relTime_input x st) = note_objs st"
  by (simp_all add: attTime_input_def decTime_input_def susAmp_input_def relTime_input_def)

lemma note_objs_timeout_sliders:
  "note_objs (timeout_fires i now (attTime_input x st)) = note_objs (timeout_fires i now st)"
  "note_objs (timeout_fires i now (decTime_input x st)) = note_objs (timeout_fires i now st)"
  "note_objs (timeout_fires i now (susAmp_input x st)) = note_objs (timeout_fires i now st)"
  "note_objs (timeout_fires i now (relTime_input x st)) = note_objs (timeout_fires i now st)"
  by (simp_all add: timeout_fires_def attTime_input_def decTime_input_def susAmp_input_def
      relTime_input_def Let_def split: option.splits timer.splits)

text \<open>
  C5: \<open>playANote\<close> appends one voice whose \<open>attack\<close>, \<open>decay\<close>, \<open>sustain\<close> and \<open>release\<close>
  are the script's variables at that moment, and leaves the voices created before as they
  are. The slider handlers write the script's variables only: the voices are the same
  after them, and what a later \<open>note.stop()\<close> schedules on any voice is the same whether
  or not a slider has moved. \<open>start\<close>, \<open>stop\<close> and \<open>resetEnvelopes\<close> never write the four
  fields of a voice.
\<close>

theorem C5_envelope_snapshot:
  "(playANote r now st = Some st' \<longrightarrow>
      take (length (note_objs st)) (note_objs st') = note_objs st
      \<and> length (note_objs st') = Suc (length (note_objs st))
      \<and> attack (last (note_objs st')) = attack_var st
      \<and> decay (last (note_objs st')) = decay_var st
      \<and> sustain (last (note_objs st')) = sustain_var st
      \<and> release (last (note_objs st')) = release_var st)
   \<and> note_objs (attTime_input x st) = note_objs st
   \<and> note_objs (decTime_input x st) = note_objs st
   \<and> note_objs (susAmp_input x st) = note_objs st
   \<and> note_objs (relTime_input x st) = note_objs st
   \<and> note_objs (timeout_fires i t (attTime_input x st)) = note_objs (timeout_fires i t st)
   \<and> note_objs (timeout_fires i t (decTime_input x st)) = note_objs (timeout_fires i t st)
   \<and> note_objs (timeout_fires i t (susAmp_input x st)) = note_objs (timeout_fires i t st)
   \<and> note_objs (timeout_fires i t (relTime_input x st)) = note_objs (timeout_fires i t st)
   \<and> attack (start t v) = attack v \<and> decay (start t v) = decay v
   \<and> sustain (start t v) = sustain v \<and> release (start t v) = release v
   \<and> attack (stop t v) = attack v \<and> decay (stop t v) = decay v
   \<and> sustain (stop t v) = sustain v \<and> release (stop t v) = release v
   \<and> attack (resetEnvelopes t v) = attack v \<and> decay (resetEnvelopes t v) = decay v
   \<and> sustain (resetEnvelopes t v) = sustain v \<and> release (resetEnvelopes t v) = release v"
proof -
  have snap: "playANote r now st = Some st' \<longrightarrow>
      take (length (note_objs st)) (note_objs st') = note_objs st
      \<and> length (note_objs st') = Suc (length (note_objs st))
      \<and> attack (last (note_objs st')) = attack_var st
      \<and> decay (last (note_objs st')) = decay_var st
      \<and> sustain (last (note_objs st')) = sustain_var st
      \<and> release (last (note_objs st')) = release_var st"
    by (auto dest!: playANote_Some simp: fields_start new_fields)
  have sl: "note_objs (attTime_input x st) = note_objs st
   \<and> note_objs (decTime_input x st) = note_objs st
   \<and> note_objs (susAmp_input x st) = note_objs st
   \<and> note_objs (relTime_input x st) = note_objs st"
    by (simp add: note_objs_sliders)
  have tm: "note_objs (timeout_fires i t (attTime_input x st)) = note_objs (timeout_fires i t st)
   \<and> note_objs (timeout_fires i t (decTime_input x st)) = note_objs (timeout_fires i t st)
   \<and> note_objs (timeout_fires i t (susAmp_input x st)) = note_objs (timeout_fires i t st)
   \<and> note_objs (timeout_fires i t (relTime_input x st)) = note_objs (timeout_fires i t st)"
    by (simp add: note_objs_timeout_sliders)
  have fl: "attack (start t v) = attack v \<and> decay (start t v) = decay v
   \<and> sustain (start t v) = sustain v \<and> release (start t v) = release v
   \<and> attack (stop t v) = attack v \<and> decay (stop t v) = decay v
   \<and> sustain (stop t v) = sustain v \<and> release (stop t v) = release v
   \<and> attack (resetEnvelopes t v) = attack v \<and> decay (resetEnvelopes t v) = decay v
   \<and> sustain (resetEnvelopes t v) = sustain v \<and> release (resetEnvelopes t v) = release v"
    by (simp add: fields_start fields_stop fields_resetEnvelopes)
  from snap sl tm fl show ?thesis by blast
qed

theorem C5_envelope_snapshot_witness:
  "playANote (1/2) 0 (init_script 0)
     = Some ((init_script 0)\<lparr>note_objs := [start 0 (new_GenSynthNote 0 65 (1/100) (1/10) (1/4) (9/10))],
               timers := [(1, Timeout 0 125)], next_id := 2\<rparr>)
   \<and> attack (last (note_objs ((init_script 0)\<lparr>note_objs := [start 0 (new_GenSynthNote 0 65 (1/100) (1/10) (1/4) (9/10))],
               timers := [(1, Timeout 0 125)], next_id := 2\<rparr>))) = 1/100
   \<and> attack (last (note_objs (attTime_input 5
        ((init_script 0)\<lparr>note_objs := [start 0 (new_GenSynthNote 0 65 (1/100) (1/10) (1/4) (9/10))],
               timers := [(1, Timeout 0 125)], next_id := 2\<rparr>)))) = 1/100"
proof -
  have i: "pick midiNotes (1/2) = Some 65"
    by (simp add: pick_def pick_index_def midiNotes_def)
  have p: "playANote (1/2) 0 (init_script 0)
     = Some ((init_script 0)\<lparr>note_objs := [start 0 (new_GenSynthNote 0 65 (1/100) (1/10) (1/4) (9/10))],
               timers := [(1, Timeout 0 125)], next_id := 2\<rparr>)"
    by (simp add: playANote_def i setTimer_def init_script_def)
  let ?st' = "(init_script 0)\<lparr>note_objs := [start 0 (new_GenSynthNote 0 65 (1/100) (1/10) (1/4) (9/10))],
               timers := [(1, Timeout 0 125)], next_id := 2\<rparr>"
  from C5_envelope_snapshot [of "1/2" 0 "init_script 0" ?st'] p
  have a: "attack (last (note_objs ?st')) = attack_var (init_script 0)" by blast
  from C5_envelope_snapshot [of "1/2" 0 ?st' _ 5]
  have b: "note_objs (attTime_input 5 ?st') = note_objs ?st'" by blast
  from p a b show ?thesis
    by (simp add: init_script_def)
qed

lemma active_intervals_clear:
  "map fst (filter (\<lambda>(j, tm). is_Interval tm) (filter (\<lambda>(j, tm). j \<noteq> i) ts))
     = filter (\<lambda>j. j \<noteq> i) (map fst (filter (\<lambda>(j, tm). is_Interval tm) ts))"
  by (induction ts) auto

lemma pending_clear_other:
  assumes "distinct (map fst ts)" and "(i, tm) \<in> set ts" and "is_Interval tm"
  shows "filter (\<lambda>(j, tm). \<not> is_Interval tm) (filter (\<lambda>(j, tm). j \<noteq> i) ts)
           = filter (\<lambda>(j, tm). \<not> is_Interval tm) ts"
  using assms
proof (induction ts)
  case Nil
  then show ?case by simp
next
  case (Cons x xs)
  obtain j tm' where x: "x = (j, tm')" by (cases x)
  show ?case
  proof (cases "j = i")
    case True
    with Cons.prems x have "tm' = tm"
      by (auto simp: rev_image_eqI)
    moreover have "\<forall>(j', t') \<in> set xs. j' \<noteq> i"
      using Cons.prems(1) x True by (auto simp: rev_image_eqI)
    then have "filter (\<lambda>(j, tm). j \<noteq> i) xs = xs"
      by (induction xs) auto
    ultimately show ?thesis using x True Cons.prems(3) by simp
  next
    case False
    with Cons x show ?thesis by auto
  qed
qed

lemma filter_neq_id: "i \<notin> set xs \<Longrightarrow> filter (\<lambda>j. j \<noteq> i) xs = xs"
  by (induction xs) auto

lemma active_clear_timeout:
  assumes "distinct (map fst ts)" and "(i, tm) \<in> set ts" and "\<not> is_Interval tm"
  shows "filter (\<lambda>j. j \<noteq> i) (map fst (filter (\<lambda>(j, tm). is_Interval tm) ts))
           = map fst (filter (\<lambda>(j, tm). is_Interval tm) ts)"
proof -
  have "i \<notin> set (map fst (filter (\<lambda>(j, tm). is_Interval tm) ts))"
  proof
    assume "i \<in> set (map fst (filter (\<lambda>(j, tm). is_Interval tm) ts))"
    then obtain tm' where "(i, tm') \<in> set ts" "is_Interval tm'" by auto
    with assms(1,2) have "tm' = tm"
      by (meson eq_key_imp_eq_value)
    with \<open>is_Interval tm'\<close> assms(3) show False by simp
  qed
  then show ?thesis by (rule filter_neq_id)
qed

lemma in_active_intervals:
  "i \<in> set (active_intervals st) \<Longrightarrow> \<exists>tm. (i, tm) \<in> set (timers st) \<and> is_Interval tm"
  by (auto simp: active_intervals_def)

lemma inv_init: "timer_inv (init_script d)"
  by (simp add: timer_inv_def init_script_def active_intervals_def)

lemma list_all_mono_id:
  "list_all (\<lambda>(j, tm). 0 < j \<and> j < n) ts \<Longrightarrow> list_all (\<lambda>(j, tm). 0 < j \<and> j < Suc n) ts"
  by (induction ts) auto

lemma list_all_filter_id:
  "list_all (\<lambda>(j, tm). 0 < j \<and> j < n) ts \<Longrightarrow>
   list_all (\<lambda>(j, tm). 0 < j \<and> j < (n::nat)) (filter (\<lambda>(j, tm). j \<noteq> i) ts)"
  by (induction ts) auto

lemma fresh_id:
  "list_all (\<lambda>(j, tm). 0 < j \<and> j < n) ts \<Longrightarrow> (n::nat) \<notin> fst ` set ts"
  by (induction ts) auto

lemma inv_setTimer_timeout:
  assumes "timer_inv st"
  shows "timer_inv (st\<lparr>note_objs := vs,
                       timers := timers st @ [(next_id st, Timeout k ms)],
                       next_id := Suc (next_id st)\<rparr>)"
  using assms
  by (auto simp: timer_inv_def active_intervals_def list_all_mono_id dest: fresh_id)

lemma inv_begin_loop:
  assumes "active_intervals st = []" and "distinct (map fst (timers st))"
    and "list_all (\<lambda>(j, tm). 0 < j \<and> j < next_id st) (timers st)" and "0 < next_id st"
  shows "timer_inv (begin_loop st)"
  using assms
  by (auto simp: timer_inv_def begin_loop_def setTimer_def active_intervals_def list_all_mono_id
      dest: fresh_id)

lemma looper_positive:
  assumes "timer_inv st" and "looper st = Some i"
  shows "0 < i \<and> (\<exists>ms. (i, Interval ms) \<in> set (timers st))"
proof -
  from assms have "i \<in> set (active_intervals st)" by (simp add: timer_inv_def)
  then obtain tm where tm: "(i, tm) \<in> set (timers st)" "is_Interval tm"
    by (blast dest: in_active_intervals)
  from assms(1) tm(1) have "0 < i"
    by (auto simp: timer_inv_def list_all_iff)
  moreover from tm obtain ms where "tm = Interval ms" by (cases tm) auto
  ultimately show ?thesis using tm(1) by blast
qed

lemma active_after_clear:
  assumes "timer_inv st"
  shows "active_intervals (clearInterval (looper st) st) = []"
proof (cases "looper st")
  case None
  with assms show ?thesis by (simp add: clearInterval_def timer_inv_def)
next
  case (Some i)
  with assms have "active_intervals st = [i]" by (simp add: timer_inv_def)
  then show ?thesis
    using Some by (simp add: clearInterval_def active_intervals_def active_intervals_clear del: filter_filter)
qed

lemma inv_click_stop:
  assumes "timer_inv st"
  shows "timer_inv (click_stop st)"
proof -
  have a: "active_intervals (click_stop st) = []"
    using active_after_clear [OF assms] by (simp add: click_stop_def active_intervals_def)
  have "distinct (map fst (timers (clearInterval (looper st) st)))"
    using assms by (auto simp: timer_inv_def clearInterval_def distinct_map_filter split: option.splits)
  moreover have "list_all (\<lambda>(j, tm). 0 < j \<and> j < next_id st) (timers (clearInterval (looper st) st))"
    using assms by (auto simp: timer_inv_def clearInterval_def list_all_filter_id split: option.splits)
  moreover have "next_id (clearInterval (looper st) st) = next_id st"
    by (simp add: clearInterval_def split: option.splits)
  ultimately show ?thesis
    using a assms by (simp add: timer_inv_def click_stop_def)
qed

lemma click_start_eq:
  assumes "timer_inv st"
  shows "click_start st = begin_loop ((click_stop st)\<lparr>ctx_running := True\<rparr>)"
proof (cases "looper st")
  case None
  then show ?thesis
    by (simp add: click_start_def click_stop_def begin_loop_def setTimer_def truthy_def
        clearInterval_def Let_def)
next
  case (Some i)
  with looper_positive [OF assms] have "i \<noteq> 0" by auto
  with Some show ?thesis
    by (simp add: click_start_def click_stop_def begin_loop_def setTimer_def truthy_def
        clearInterval_def Let_def)
qed

lemma inv_ctx_running: "timer_inv (st\<lparr>ctx_running := b\<rparr>) = timer_inv st"
  by (simp add: timer_inv_def active_intervals_def)

lemma inv_click_start:
  assumes "timer_inv st"
  shows "timer_inv (click_start st)"
proof -
  have "timer_inv ((click_stop st)\<lparr>ctx_running := True\<rparr>)"
    using inv_click_stop [OF assms] by (simp add: inv_ctx_running)
  moreover have "looper ((click_stop st)\<lparr>ctx_running := True\<rparr>) = None"
    by (simp add: click_stop_def)
  ultimately have "timer_inv (begin_loop ((click_stop st)\<lparr>ctx_running := True\<rparr>))"
    by (intro inv_begin_loop) (simp_all add: timer_inv_def)
  then show ?thesis by (simp add: click_start_eq [OF assms])
qed

lemma inv_sliders:
  "timer_inv (attTime_input x st) = timer_inv st"
  "timer_inv (decTime_input x st) = timer_inv st"
  "timer_inv (susAmp_input x st) = timer_inv st"
  "timer_inv (relTime_input x st) = timer_inv st"
  by (simp_all add: timer_inv_def active_intervals_def attTime_input_def decTime_input_def
      susAmp_input_def relTime_input_def)

lemma inv_interval_fires:
  assumes "timer_inv st"
  shows "timer_inv (interval_fires i r now st)"
proof (cases "playANote r now st")
  case None
  with assms show ?thesis
    by (simp add: interval_fires_def split: option.splits timer.splits)
next
  case (Some st1)
  from playANote_Some [OF Some] obtain vs k ms where
    "st1 = st\<lparr>note_objs := vs, timers := timers st @ [(next_id st, Timeout k ms)],
              next_id := Suc (next_id st)\<rparr>"
    by blast
  with inv_setTimer_timeout [OF assms] have "timer_inv st1" by simp
  with assms Some show ?thesis
    by (simp add: interval_fires_def split: option.splits timer.splits)
qed

lemma inv_timeout_fires:
  assumes "timer_inv st"
  shows "timer_inv (timeout_fires i now st)"
proof (cases "map_of (timers st) i")
  case None
  with assms show ?thesis by (simp add: timeout_fires_def)
next
  case (Some tm)
  show ?thesis
  proof (cases tm)
    case (Interval ms)
    with Some assms show ?thesis by (simp add: timeout_fires_def)
  next
    case (Timeout k ms)
    from Some have mem: "(i, tm) \<in> set (timers st)" by (rule map_of_SomeD)
    have d: "distinct (map fst (timers st))" using assms by (simp add: timer_inv_def)
    have ni: "\<not> is_Interval tm" using Timeout by simp
    let ?ts = "filter (\<lambda>(j, tm). j \<noteq> i) (timers st)"
    have a: "map fst (filter (\<lambda>(j, tm). is_Interval tm) ?ts) = active_intervals st"
      by (simp add: active_intervals_clear active_clear_timeout [OF d mem ni] active_intervals_def
          del: filter_filter)
    have "timer_inv (st\<lparr>timers := ?ts\<rparr>)"
      using assms a
      by (simp add: timer_inv_def active_intervals_def distinct_map_filter list_all_filter_id)
    moreover have "\<And>vs. timer_inv (st\<lparr>timers := ?ts, note_objs := vs\<rparr>) = timer_inv (st\<lparr>timers := ?ts\<rparr>)"
      by (simp add: timer_inv_def active_intervals_def)
    ultimately show ?thesis
      using Some Timeout by (simp add: timeout_fires_def Let_def)
  qed
qed

lemma inv_audio_renders: "timer_inv (audio_renders t st) = timer_inv st"
  by (simp add: timer_inv_def active_intervals_def audio_renders_def)

lemma reachable_inv: "reachable st \<Longrightarrow> timer_inv st"
  by (induction rule: reachable.induct)
     (simp_all add: inv_init inv_click_start inv_click_stop inv_sliders inv_interval_fires
        inv_timeout_fires inv_audio_renders)


lemma active_begin_loop:
  "active_intervals (begin_loop st) = active_intervals st @ [next_id st]"
  by (simp add: begin_loop_def setTimer_def active_intervals_def)

lemma next_id_click_stop: "next_id ((click_stop st)\<lparr>ctx_running := True\<rparr>) = next_id st"
  by (simp add: click_stop_def clearInterval_def split: option.splits)

lemma pending_click_stop:
  assumes "timer_inv st"
  shows "pending_timeouts (click_stop st) = pending_timeouts st"
proof (cases "looper st")
  case None
  then show ?thesis by (simp add: click_stop_def clearInterval_def pending_timeouts_def)
next
  case (Some i)
  from looper_positive [OF assms Some] obtain ms where m: "(i, Interval ms) \<in> set (timers st)"
    by blast
  have d: "distinct (map fst (timers st))" using assms by (simp add: timer_inv_def)
  have "filter (\<lambda>(j, tm). \<not> is_Interval tm) (filter (\<lambda>(j, tm). j \<noteq> i) (timers st))
           = filter (\<lambda>(j, tm). \<not> is_Interval tm) (timers st)"
    by (rule pending_clear_other [OF d m]) simp
  then show ?thesis
    using Some by (simp add: click_stop_def clearInterval_def pending_timeouts_def del: filter_filter)
qed

text \<open>
  C9: in every state the script can reach at most one periodic timer is set. A click on
  \<open>#start\<close> does what a click on \<open>#stop\<close> does and then sets a new periodic timer: after it
  exactly the new timer is set and \<open>looper\<close> holds its handle. A click on \<open>#stop\<close> leaves
  no periodic timer set and clears \<open>looper\<close>; it leaves the voices and the pending
  \<open>note.stop()\<close> timers as they are.
\<close>

theorem C9_one_periodic_timer:
  assumes "reachable st"
  shows "length (active_intervals st) \<le> 1
       \<and> click_start st = begin_loop ((click_stop st)\<lparr>ctx_running := True\<rparr>)
       \<and> active_intervals (click_start st) = [next_id st]
       \<and> looper (click_start st) = Some (next_id st)
       \<and> active_intervals (click_stop st) = []
       \<and> looper (click_stop st) = None
       \<and> note_objs (click_stop st) = note_objs st
       \<and> pending_timeouts (click_stop st) = pending_timeouts st"
proof -
  have inv: "timer_inv st" using assms by (rule reachable_inv)
  have one: "length (active_intervals st) \<le> 1"
    using inv by (simp add: timer_inv_def split: option.splits)
  have eq: "click_start st = begin_loop ((click_stop st)\<lparr>ctx_running := True\<rparr>)"
    using inv by (rule click_start_eq)
  have off: "active_intervals (click_stop st) = []"
    using active_after_clear [OF inv] by (simp add: click_stop_def active_intervals_def)
  then have "active_intervals ((click_stop st)\<lparr>ctx_running := True\<rparr>) = []"
    by (simp add: active_intervals_def)
  then have on: "active_intervals (click_start st) = [next_id st]"
    by (simp add: eq active_begin_loop next_id_click_stop)
  have lp: "looper (click_start st) = Some (next_id st)"
    by (simp add: eq begin_loop_def setTimer_def click_stop_def clearInterval_def
        split: option.splits)
  have ln: "looper (click_stop st) = None"
    by (simp add: click_stop_def)
  have nt: "note_objs (click_stop st) = note_objs st"
    by (simp add: click_stop_def clearInterval_def split: option.splits)
  have pt: "pending_timeouts (click_stop st) = pending_timeouts st"
    using inv by (rule pending_click_stop)
  from one eq on lp off ln nt pt show ?thesis by blast
qed

theorem C9_one_periodic_timer_witness:
  "reachable (click_start (init_script 0))
   \<and> active_intervals (click_start (init_script 0)) = [1]
   \<and> active_intervals (click_start (click_start (init_script 0))) = [2]
   \<and> looper (click_start (click_start (init_script 0))) = Some 2
   \<and> active_intervals (click_stop (click_start (init_script 0))) = []
   \<and> looper (click_stop (click_start (init_script 0))) = None"
proof -
  have r: "reachable (click_start (init_script 0))"
    by (rule r_start [OF r_init])
  have n: "next_id (click_start (init_script 0)) = 2"
    by (simp add: click_start_def init_script_def begin_loop_def setTimer_def truthy_def)
  have a: "active_intervals (click_start (init_script 0)) = [1]"
    by (simp add: click_start_def init_script_def begin_loop_def setTimer_def truthy_def
        active_intervals_def)
  from C9_one_periodic_timer [OF r, unfolded n] r a show ?thesis by blast
qed


end
